theory Spec2Isabelle
  imports Complex_Main
begin

section \<open>Python values that flow through the script\<close>

text \<open>
  The script works on the decoded JSON of the GraphQL endpoint. Python decodes JSON into
  \<open>None\<close>, \<open>bool\<close>, \<open>int\<close>, \<open>float\<close>, \<open>str\<close>, \<open>list\<close> and \<open>dict\<close>; the datatype below
  has one constructor for each. A \<open>dict\<close> is kept as an association list that is read
  with \<open>map_of\<close>. Python floats are modelled by exact rationals: rounding, overflow,
  infinities and NaN are outside the model.
\<close>

datatype json =
    JNull
  | JBool bool
  | JInt int
  | JFloat rat
  | JStr string
  | JArr "json list"
  | JObj "(string \<times> json) list"

text \<open>The exceptions the modelled functions can raise, named after the Python
  exception and, where one Python class is raised at several places, after the place.\<close>

datatype error =
    ConnectionError
  | HTTPError
  | JSONDecodeError
  | RuntimeError_query_failed
  | ValueError_data_key_missing
  | ValueError_project_not_found
  | ValueError_time_format
  | ValueError_float
  | KeyError string
  | TypeError
  | AttributeError
  | ResponsesExhausted

text \<open>Truth value testing (\<open>if x\<close>, \<open>not x\<close>, \<open>x or y\<close>).\<close>

fun truthy :: "json \<Rightarrow> bool" where
  "truthy JNull = False"
| "truthy (JBool b) = b"
| "truthy (JInt n) = (n \<noteq> 0)"
| "truthy (JFloat r) = (r \<noteq> 0)"
| "truthy (JStr s) = (s \<noteq> [])"
| "truthy (JArr xs) = (xs \<noteq> [])"
| "truthy (JObj kvs) = (kvs \<noteq> [])"

text \<open>\<open>d.get(k, default)\<close>: only a \<open>dict\<close> has the method.\<close>

fun py_get :: "json \<Rightarrow> string \<Rightarrow> json \<Rightarrow> error + json" where
  "py_get (JObj kvs) k dflt = Inr (case map_of kvs k of None \<Rightarrow> dflt | Some v \<Rightarrow> v)"
| "py_get _ k dflt = Inl AttributeError"

text \<open>\<open>d[k]\<close> with a string key: \<open>KeyError\<close> on a \<open>dict\<close> without the key,
  \<open>TypeError\<close> on every other value.\<close>

fun py_getitem :: "json \<Rightarrow> string \<Rightarrow> error + json" where
  "py_getitem (JObj kvs) k = (case map_of kvs k of None \<Rightarrow> Inl (KeyError k) | Some v \<Rightarrow> Inr v)"
| "py_getitem _ k = Inl TypeError"

text \<open>Iteration (\<open>for x in v\<close>, \<open>list.extend(v)\<close>): a list yields its elements, a
  \<open>dict\<close> its keys, a string its characters; the other values are not iterable.\<close>

fun py_iter :: "json \<Rightarrow> error + json list" where
  "py_iter (JArr xs) = Inr xs"
| "py_iter (JObj kvs) = Inr (map JStr (remdups (map fst kvs)))"
| "py_iter (JStr s) = Inr (map (\<lambda>c. JStr [c]) s)"
| "py_iter _ = Inl TypeError"

text \<open>Keys of a Python \<open>dict\<close>. Lists and dicts are unhashable; \<open>True\<close>, \<open>1\<close> and
  \<open>1.0\<close> are one key.\<close>

datatype dkey = KNone | KStr string | KNum rat

fun hash_key :: "json \<Rightarrow> error + dkey" where
  "hash_key JNull = Inr KNone"
| "hash_key (JBool b) = Inr (KNum (if b then 1 else 0))"
| "hash_key (JInt n) = Inr (KNum (of_int n))"
| "hash_key (JFloat r) = Inr (KNum r)"
| "hash_key (JStr s) = Inr (KStr s)"
| "hash_key (JArr xs) = Inl TypeError"
| "hash_key (JObj kvs) = Inl TypeError"

section \<open>\<open>process_items\<close>\<close>

text \<open>The record appended to \<open>processed_items\<close>.\<close>

record norm_item =
  title :: json
  state :: json
  closed_at :: json
  fields_map :: "dkey \<rightharpoonup> json"

text \<open>\<open>field.get("text") or field.get("number")\<close>.\<close>

definition field_value_of :: "json \<Rightarrow> error + json" where
  "field_value_of field =
     (case py_get field ''text'' JNull of
        Inl e \<Rightarrow> Inl e
      | Inr t \<Rightarrow> if truthy t then Inr t else py_get field ''number'' JNull)"

text \<open>The inner loop over the field-value entries of one item; the second argument is
  the \<open>fields\<close> dict built so far. The \<open>print\<close> of a skipped entry is not modelled.\<close>

fun extract_fields :: "json list \<Rightarrow> (dkey \<rightharpoonup> json) \<Rightarrow> error + (dkey \<rightharpoonup> json)" where
  "extract_fields [] fs = Inr fs"
| "extract_fields (field # rest) fs =
     (case py_get field ''field'' JNull of
        Inl e \<Rightarrow> Inl e
      | Inr field_metadata \<Rightarrow>
          if \<not> truthy field_metadata then extract_fields rest fs
          else
            (case py_get field_metadata ''name'' (JStr ''Unknown'') of
               Inl e \<Rightarrow> Inl e
             | Inr field_name \<Rightarrow>
                 (case field_value_of field of
                    Inl e \<Rightarrow> Inl e
                  | Inr field_value \<Rightarrow>
                      (case hash_key field_name of
                         Inl e \<Rightarrow> Inl e
                       | Inr k \<Rightarrow> extract_fields rest (fs(k \<mapsto> field_value))))))"

text \<open>The body of the outer loop for one item.\<close>

definition process_item :: "json \<Rightarrow> error + norm_item" where
  "process_item item =
     (case py_get item ''fieldValues'' (JObj []) of
        Inl e \<Rightarrow> Inl e
      | Inr fv \<Rightarrow>
     (case py_get fv ''nodes'' (JArr []) of
        Inl e \<Rightarrow> Inl e
      | Inr nodes \<Rightarrow>
     (case py_iter nodes of
        Inl e \<Rightarrow> Inl e
      | Inr entries \<Rightarrow>
     (case extract_fields entries Map.empty of
        Inl e \<Rightarrow> Inl e
      | Inr fs \<Rightarrow>
     (case py_get item ''content'' (JObj []) of
        Inl e \<Rightarrow> Inl e
      | Inr content \<Rightarrow>
     (case py_get content ''title'' (JStr ''No Title'') of
        Inl e \<Rightarrow> Inl e
      | Inr t \<Rightarrow>
     (case py_get content ''state'' (JStr ''Unknown'') of
        Inl e \<Rightarrow> Inl e
      | Inr s \<Rightarrow>
     (case py_get content ''closedAt'' JNull of
        Inl e \<Rightarrow> Inl e
      | Inr c \<Rightarrow>
          Inr \<lparr>title = t, state = s, closed_at = c, fields_map = fs\<rparr>))))))))"

text \<open>The outer loop; the second argument is \<open>processed_items\<close> so far.\<close>

fun process_loop :: "json list \<Rightarrow> norm_item list \<Rightarrow> error + norm_item list" where
  "process_loop [] processed_items = Inr processed_items"
| "process_loop (item # rest) processed_items =
     (case process_item item of
        Inl e \<Rightarrow> Inl e
      | Inr r \<Rightarrow> process_loop rest (processed_items @ [r]))"

definition process_items :: "json list \<Rightarrow> string \<Rightarrow> error + norm_item list" where
  "process_items items milestone_name = process_loop items []"

section \<open>\<open>calculate_by_date\<close>\<close>

text \<open>
  A \<open>datetime\<close> is its proleptic Gregorian ordinal (\<open>toordinal()\<close>: 1 is 0001-01-01)
  and the microseconds since midnight; a \<open>date\<close> is the ordinal alone, so \<open>.date()\<close> is
  the field \<open>ordinal\<close>.
\<close>

record datetime =
  ordinal :: int
  micros :: int

type_synonym date = int

text \<open>
  Two library functions are parameters of the model. \<open>strptime\<close> stands for
  \<open>datetime.strptime(s, "%Y-%m-%dT%H:%M:%SZ")\<close> on a string and \<open>float_of_str\<close> for
  \<open>float(s)\<close> on a string; both are \<open>None\<close> where Python raises \<open>ValueError\<close>. Every
  theorem below holds for every choice of the two.
\<close>

fun py_strptime :: "(string \<Rightarrow> datetime option) \<Rightarrow> json \<Rightarrow> error + datetime" where
  "py_strptime strptime (JStr s) =
     (case strptime s of None \<Rightarrow> Inl ValueError_time_format | Some dt \<Rightarrow> Inr dt)"
| "py_strptime strptime _ = Inl TypeError"

fun py_float :: "(string \<Rightarrow> rat option) \<Rightarrow> json \<Rightarrow> error + rat" where
  "py_float float_of_str (JInt n) = Inr (of_int n)"
| "py_float float_of_str (JFloat r) = Inr r"
| "py_float float_of_str (JBool b) = Inr (if b then 1 else 0)"
| "py_float float_of_str (JStr s) =
     (case float_of_str s of None \<Rightarrow> Inl ValueError_float | Some r \<Rightarrow> Inr r)"
| "py_float float_of_str _ = Inl TypeError"

text \<open>\<open>closed_per_day.get(k, 0)\<close> on a \<open>dict\<close> of numbers.\<close>

definition get0 :: "('k \<rightharpoonup> rat) \<Rightarrow> 'k \<Rightarrow> rat" where
  "get0 d k = (case d k of None \<Rightarrow> 0 | Some v \<Rightarrow> v)"

text \<open>\<open>value = 1 if field_name is None else item["fields"].get(field_name, 0)\<close>.\<close>

definition counted_value :: "string option \<Rightarrow> norm_item \<Rightarrow> json" where
  "counted_value field_name item =
     (case field_name of
        None \<Rightarrow> JInt 1
      | Some f \<Rightarrow> (case fields_map item (KStr f) of None \<Rightarrow> JInt 0 | Some v \<Rightarrow> v))"

text \<open>The loop; the last argument is \<open>closed_per_day\<close> so far.\<close>

fun calc_loop ::
  "(string \<Rightarrow> datetime option) \<Rightarrow> (string \<Rightarrow> rat option) \<Rightarrow> string option \<Rightarrow>
   norm_item list \<Rightarrow> (date \<rightharpoonup> rat) \<Rightarrow> error + (date \<rightharpoonup> rat)" where
  "calc_loop strptime float_of_str field_name [] closed_per_day = Inr closed_per_day"
| "calc_loop strptime float_of_str field_name (item # rest) closed_per_day =
     (let v = counted_value field_name item in
      if truthy v \<and> state item = JStr ''CLOSED'' \<and> truthy (closed_at item) then
        (case py_strptime strptime (closed_at item) of
           Inl e \<Rightarrow> Inl e
         | Inr dt \<Rightarrow>
             (let closed_date = ordinal dt in
              case py_float float_of_str v of
                Inl e \<Rightarrow> Inl e
              | Inr x \<Rightarrow>
                  calc_loop strptime float_of_str field_name rest
                    (closed_per_day(closed_date \<mapsto> get0 closed_per_day closed_date + x))))
      else calc_loop strptime float_of_str field_name rest closed_per_day)"

definition calculate_by_date ::
  "(string \<Rightarrow> datetime option) \<Rightarrow> (string \<Rightarrow> rat option) \<Rightarrow>
   norm_item list \<Rightarrow> string option \<Rightarrow> error + (date \<rightharpoonup> rat)" where
  "calculate_by_date strptime float_of_str items field_name =
     calc_loop strptime float_of_str field_name items Map.empty"

section \<open>\<open>generate_burndown_chart\<close>\<close>

text \<open>\<open>(end_date - start_date).days\<close>: a \<open>timedelta\<close> is normalised so that its
  \<open>days\<close> is the floor of the difference in days.\<close>

definition timedelta_days :: "datetime \<Rightarrow> datetime \<Rightarrow> int" where
  "timedelta_days end_date start_date =
     ((ordinal end_date * 86400000000 + micros end_date)
      - (ordinal start_date * 86400000000 + micros start_date)) div 86400000000"

text \<open>\<open>[start_date + timedelta(days=i) for i in range((end_date - start_date).days + 1)]\<close>;
  \<open>range\<close> of a number below 1 is empty.\<close>

definition date_range :: "datetime \<Rightarrow> datetime \<Rightarrow> datetime list" where
  "date_range start_date end_date =
     map (\<lambda>i. start_date\<lparr>ordinal := ordinal start_date + int i\<rparr>)
       [0 ..< nat (timedelta_days end_date start_date + 1)]"

text \<open>\<open>[total_value - (total_value / len(date_range)) * i for i in range(len(date_range))]\<close>.\<close>

definition ideal_burndown :: "rat \<Rightarrow> nat \<Rightarrow> rat list" where
  "ideal_burndown total_value n =
     map (\<lambda>i. total_value - (total_value / of_nat n) * of_nat i) [0 ..< n]"

text \<open>The loop over \<open>date_range\<close>; the arguments are \<open>remaining_value\<close> and
  \<open>actual_burndown\<close> so far.\<close>

fun actual_loop :: "(date \<rightharpoonup> rat) \<Rightarrow> datetime list \<Rightarrow> rat \<Rightarrow> rat list \<Rightarrow> rat list" where
  "actual_loop closed_per_day [] remaining_value actual_burndown = actual_burndown"
| "actual_loop closed_per_day (current_date # rest) remaining_value actual_burndown =
     (let completed_today = get0 closed_per_day (ordinal current_date);
          remaining_value = remaining_value - completed_today
      in actual_loop closed_per_day rest remaining_value (actual_burndown @ [remaining_value]))"

text \<open>The three series handed to the plotting calls. The plot itself, the file it is
  saved to and the label, file name and colour arguments are not modelled.\<close>

record chart =
  chart_dates :: "datetime list"
  chart_ideal :: "rat list"
  chart_actual :: "rat list"

definition generate_burndown_chart ::
  "(date \<rightharpoonup> rat) \<Rightarrow> datetime \<Rightarrow> datetime \<Rightarrow> rat \<Rightarrow> chart" where
  "generate_burndown_chart closed_per_day start_date end_date total_value =
     (let dr = date_range start_date end_date in
      \<lparr>chart_dates = dr,
       chart_ideal = ideal_burndown total_value (length dr),
       chart_actual = actual_loop closed_per_day dr total_value []\<rparr>)"

section \<open>\<open>fetch_project_items\<close>\<close>

text \<open>What one \<open>requests.post\<close> followed by \<open>raise_for_status()\<close> and \<open>json()\<close> gives:
  one of the three calls raises, or the decoded body.\<close>

datatype response = NoConnection | BadStatus | NotJSON | Body json

text \<open>\<open>k in v\<close> for a string \<open>k\<close>: key of a \<open>dict\<close>, element of a list, substring of a
  string.\<close>

fun is_substring :: "string \<Rightarrow> string \<Rightarrow> bool" where
  "is_substring k [] = (k = [])"
| "is_substring k (c # cs) = (take (length k) (c # cs) = k \<or> is_substring k cs)"

fun py_contains :: "string \<Rightarrow> json \<Rightarrow> error + bool" where
  "py_contains k (JObj kvs) = Inr (k \<in> set (map fst kvs))"
| "py_contains k (JArr xs) = Inr (JStr k \<in> set xs)"
| "py_contains k (JStr s) = Inr (is_substring k s)"
| "py_contains k _ = Inl TypeError"

text \<open>\<open>next((p for p in projects if p["title"] == project_title), None)\<close>.\<close>

fun find_project :: "string \<Rightarrow> json list \<Rightarrow> error + json" where
  "find_project project_title [] = Inr JNull"
| "find_project project_title (p # ps) =
     (case py_getitem p ''title'' of
        Inl e \<Rightarrow> Inl e
      | Inr t \<Rightarrow> if t = JStr project_title then Inr p else find_project project_title ps)"

text \<open>\<open>data["data"]["organization"]["projectsV2"]["nodes"]\<close>.\<close>

definition projects_of :: "json \<Rightarrow> error + json" where
  "projects_of data =
     (case py_getitem data ''data'' of
        Inl e \<Rightarrow> Inl e
      | Inr d \<Rightarrow>
     (case py_getitem d ''organization'' of
        Inl e \<Rightarrow> Inl e
      | Inr organization \<Rightarrow>
     (case py_getitem organization ''projectsV2'' of
        Inl e \<Rightarrow> Inl e
      | Inr projectsV2 \<Rightarrow> py_getitem projectsV2 ''nodes'')))"

text \<open>The body of the \<open>while\<close> loop after the request: the nodes to append and, when
  the loop goes on, the cursor of the next request.\<close>

definition page_step :: "string \<Rightarrow> json \<Rightarrow> error + (json list \<times> json option)" where
  "page_step project_title data =
     (case py_contains ''errors'' data of
        Inl e \<Rightarrow> Inl e
      | Inr True \<Rightarrow> Inl RuntimeError_query_failed
      | Inr False \<Rightarrow>
     (case py_contains ''data'' data of
        Inl e \<Rightarrow> Inl e
      | Inr False \<Rightarrow> Inl ValueError_data_key_missing
      | Inr True \<Rightarrow>
     (case projects_of data of
        Inl e \<Rightarrow> Inl e
      | Inr projects \<Rightarrow>
     (case py_iter projects of
        Inl e \<Rightarrow> Inl e
      | Inr ps \<Rightarrow>
     (case find_project project_title ps of
        Inl e \<Rightarrow> Inl e
      | Inr project \<Rightarrow>
          if \<not> truthy project then Inl ValueError_project_not_found
          else
     (case py_getitem project ''items'' of
        Inl e \<Rightarrow> Inl e
      | Inr project_items \<Rightarrow>
     (case py_getitem project_items ''nodes'' of
        Inl e \<Rightarrow> Inl e
      | Inr nodes \<Rightarrow>
     (case py_iter nodes of
        Inl e \<Rightarrow> Inl e
      | Inr ns \<Rightarrow>
     (case py_getitem project_items ''pageInfo'' of
        Inl e \<Rightarrow> Inl e
      | Inr page_info \<Rightarrow>
     (case py_getitem page_info ''hasNextPage'' of
        Inl e \<Rightarrow> Inl e
      | Inr has_next \<Rightarrow>
          if \<not> truthy has_next then Inr (ns, None)
          else
            (case py_getitem page_info ''endCursor'' of
               Inl e \<Rightarrow> Inl e
             | Inr c \<Rightarrow> Inr (ns, Some c))))))))))))"

text \<open>
  The \<open>while True\<close> loop. The endpoint is a list of handlers, one for each request in
  turn, each from the variables of the request (\<open>org\<close> and \<open>cursor\<close>) to what the
  request gives; the list bounds the number of requests, and \<open>ResponsesExhausted\<close> says
  that the loop asked for more. The last two arguments are \<open>variables["cursor"]\<close> and
  \<open>all_items\<close>.
\<close>

fun fetch_loop ::
  "string \<Rightarrow> string \<Rightarrow> (string \<Rightarrow> json \<Rightarrow> response) list \<Rightarrow> json \<Rightarrow> json list \<Rightarrow>
   error + json list" where
  "fetch_loop org project_title [] cursor all_items = Inl ResponsesExhausted"
| "fetch_loop org project_title (post # later) cursor all_items =
     (case post org cursor of
        NoConnection \<Rightarrow> Inl ConnectionError
      | BadStatus \<Rightarrow> Inl HTTPError
      | NotJSON \<Rightarrow> Inl JSONDecodeError
      | Body data \<Rightarrow>
          (case page_step project_title data of
             Inl e \<Rightarrow> Inl e
           | Inr (ns, None) \<Rightarrow> Inr (all_items @ ns)
           | Inr (ns, Some c) \<Rightarrow> fetch_loop org project_title later c (all_items @ ns)))"

definition fetch_project_items ::
  "(string \<Rightarrow> json \<Rightarrow> response) list \<Rightarrow> string \<Rightarrow> string \<Rightarrow> error + json list" where
  "fetch_project_items endpoint org project_title =
     fetch_loop org project_title endpoint JNull []"

section \<open>Vocabulary of the properties\<close>

text \<open>The definitions of this section are not part of the script: they name the
  inputs and the expected results that the properties below speak about.\<close>

subsection \<open>Field-value entries and raw items\<close>

text \<open>The key under which a field-value entry is stored: the entry carries field
  metadata (a truthy \<open>field\<close> that is a \<open>dict\<close>) whose \<open>name\<close>, or \<open>"Unknown"\<close> without one,
  is hashable. \<open>None\<close> for every other entry.\<close>

definition entry_key :: "json \<Rightarrow> dkey option" where
  "entry_key e =
     (case e of
        JObj kvs \<Rightarrow>
          (case map_of kvs ''field'' of
             Some (JObj md) \<Rightarrow>
               if md = [] then None
               else (case hash_key (case map_of md ''name'' of
                                      None \<Rightarrow> JStr ''Unknown'' | Some nm \<Rightarrow> nm) of
                       Inl _ \<Rightarrow> None
                     | Inr k \<Rightarrow> Some k)
           | _ \<Rightarrow> None)
      | _ \<Rightarrow> None)"

definition or_none :: "json option \<Rightarrow> json" where
  "or_none v = (case v of None \<Rightarrow> JNull | Some x \<Rightarrow> x)"

text \<open>What a \<open>dict\<close> entry stores: its \<open>text\<close> when that is present and truthy, else
  its \<open>number\<close>, else \<open>None\<close>.\<close>

definition entry_value :: "(string \<times> json) list \<Rightarrow> json" where
  "entry_value kvs =
     (case map_of kvs ''text'' of
        None \<Rightarrow> or_none (map_of kvs ''number'')
      | Some t \<Rightarrow> if truthy t then t else or_none (map_of kvs ''number''))"

text \<open>A field-value entry that the inner loop reads without raising: a \<open>dict\<close> whose
  \<open>field\<close> is absent, falsy, or a \<open>dict\<close> with a hashable name.\<close>

definition entry_ok :: "json \<Rightarrow> bool" where
  "entry_ok e =
     (case e of
        JObj kvs \<Rightarrow>
          (case map_of kvs ''field'' of
             None \<Rightarrow> True
           | Some md \<Rightarrow> if truthy md then entry_key e \<noteq> None else True)
      | _ \<Rightarrow> False)"

text \<open>A raw item of the shape the query asks for: a \<open>dict\<close> whose \<open>fieldValues\<close>, when
  present, is a \<open>dict\<close> whose \<open>nodes\<close>, when present, is a list of readable entries, and
  whose \<open>content\<close>, when present, is a \<open>dict\<close>.\<close>

definition item_ok :: "json \<Rightarrow> bool" where
  "item_ok item =
     (case item of
        JObj kvs \<Rightarrow>
          (case map_of kvs ''fieldValues'' of
             None \<Rightarrow> True
           | Some (JObj fv) \<Rightarrow>
               (case map_of fv ''nodes'' of
                  None \<Rightarrow> True
                | Some (JArr es) \<Rightarrow> list_all entry_ok es
                | Some _ \<Rightarrow> False)
           | Some _ \<Rightarrow> False)
          \<and> (case map_of kvs ''content'' of
                None \<Rightarrow> True
              | Some (JObj c) \<Rightarrow> True
              | Some _ \<Rightarrow> False)
      | _ \<Rightarrow> False)"

subsection \<open>Dates\<close>

text \<open>\<open>datetime(y, m, d, H, M, S)\<close>, with the ordinal computed as the \<open>datetime\<close>
  module does, for the examples.\<close>

definition is_leap :: "int \<Rightarrow> bool" where
  "is_leap y = (y mod 4 = 0 \<and> (if y mod 100 = 0 then y mod 400 = 0 else True))"

definition days_before_year :: "int \<Rightarrow> int" where
  "days_before_year y = (y - 1) * 365 + (y - 1) div 4 - (y - 1) div 100 + (y - 1) div 400"

definition days_in_month :: "int \<Rightarrow> int \<Rightarrow> int" where
  "days_in_month y m =
     (if m = 2 then (if is_leap y then 29 else 28)
      else if m = 4 \<or> m = 6 \<or> m = 9 \<or> m = 11 then 30 else 31)"

definition days_before_month :: "int \<Rightarrow> int \<Rightarrow> int" where
  "days_before_month y m = sum_list (map (days_in_month y) [1 .. m - 1])"

definition ymd_ordinal :: "int \<Rightarrow> int \<Rightarrow> int \<Rightarrow> date" where
  "ymd_ordinal y m d = days_before_year y + days_before_month y m + d"

definition datetime_of :: "int \<Rightarrow> int \<Rightarrow> int \<Rightarrow> int \<Rightarrow> int \<Rightarrow> int \<Rightarrow> datetime" where
  "datetime_of y m d H M S =
     \<lparr>ordinal = ymd_ordinal y m d, micros = ((H * 60 + M) * 60 + S) * 1000000\<rparr>"

text \<open>Two sample instances of the library parameters. \<open>iso_strptime\<close> accepts exactly
  the strings \<open>YYYY-MM-DDTHH:MM:SSZ\<close> with two-digit fields (four for the year) that
  denote a date and a time of day; \<open>digits_float\<close> accepts the non-empty strings of
  decimal digits.\<close>

definition digits_value :: "string \<Rightarrow> int option" where
  "digits_value s =
     (if s \<noteq> [] \<and> list_all (\<lambda>c. 48 \<le> (of_char c :: nat) \<and> (of_char c :: nat) \<le> 57) s
      then Some (foldl (\<lambda>a c. 10 * a + (int (of_char c) - 48)) 0 s)
      else None)"

definition iso_strptime :: "string \<Rightarrow> datetime option" where
  "iso_strptime s =
     (if length s = 20 \<and> s ! 4 = CHR ''-'' \<and> s ! 7 = CHR ''-'' \<and> s ! 10 = CHR ''T''
         \<and> s ! 13 = CHR '':'' \<and> s ! 16 = CHR '':'' \<and> s ! 19 = CHR ''Z''
      then
        (case (digits_value (take 4 s), digits_value (take 2 (drop 5 s)),
               digits_value (take 2 (drop 8 s)), digits_value (take 2 (drop 11 s)),
               digits_value (take 2 (drop 14 s)), digits_value (take 2 (drop 17 s))) of
           (Some y, Some m, Some d, Some H, Some M, Some S) \<Rightarrow>
             if 1 \<le> y \<and> 1 \<le> m \<and> m \<le> 12 \<and> 1 \<le> d \<and> d \<le> days_in_month y m
                \<and> H \<le> 23 \<and> M \<le> 59 \<and> S \<le> 59
             then Some (datetime_of y m d H M S) else None
         | _ \<Rightarrow> None)
      else None)"

definition digits_float :: "string \<Rightarrow> rat option" where
  "digits_float s = map_option of_int (digits_value s)"

subsection \<open>The bucket the spec describes\<close>

text \<open>What one normalized item adds to the bucket, in the words of the spec: only an
  item whose state is exactly \<open>CLOSED\<close> and whose closure timestamp is present adds
  something, under the date of that timestamp; it adds 1 when no field name is given,
  and the numeric value of the named field when one is given, nothing when the field is
  missing or falsy.\<close>

definition spec_contribution ::
  "(string \<Rightarrow> datetime option) \<Rightarrow> (string \<Rightarrow> rat option) \<Rightarrow> string option \<Rightarrow>
   norm_item \<Rightarrow> (date \<times> rat) option" where
  "spec_contribution strptime float_of_str field_name item =
     (if state item = JStr ''CLOSED'' \<and> truthy (closed_at item) then
        (case py_strptime strptime (closed_at item) of
           Inl _ \<Rightarrow> None
         | Inr dt \<Rightarrow>
             (case field_name of
                None \<Rightarrow> Some (ordinal dt, 1)
              | Some f \<Rightarrow>
                  (case fields_map item (KStr f) of
                     None \<Rightarrow> None
                   | Some v \<Rightarrow>
                       if truthy v then
                         (case py_float float_of_str v of
                            Inl _ \<Rightarrow> None
                          | Inr x \<Rightarrow> Some (ordinal dt, x))
                       else None)))
      else None)"

text \<open>The bucket of the spec: a date is a key when some item adds to it, and its value
  is the sum of what the items add to it.\<close>

definition spec_bucket ::
  "(string \<Rightarrow> datetime option) \<Rightarrow> (string \<Rightarrow> rat option) \<Rightarrow> string option \<Rightarrow>
   norm_item list \<Rightarrow> (date \<rightharpoonup> rat)" where
  "spec_bucket strptime float_of_str field_name items d =
     (let added = filter (\<lambda>c. fst c = d)
                    (List.map_filter (spec_contribution strptime float_of_str field_name) items)
      in if added = [] then None else Some (sum_list (map snd added)))"

text \<open>The values the items add to the date \<open>d\<close>, in the order of the items.\<close>

definition added_to ::
  "(string \<Rightarrow> datetime option) \<Rightarrow> (string \<Rightarrow> rat option) \<Rightarrow> string option \<Rightarrow>
   norm_item list \<Rightarrow> date \<Rightarrow> rat list" where
  "added_to P F fn items d =
     map snd (filter (\<lambda>c. fst c = d) (List.map_filter (spec_contribution P F fn) items))"

text \<open>The items that pass the test of the loop of \<open>calculate_by_date\<close>.\<close>

definition counted :: "string option \<Rightarrow> norm_item \<Rightarrow> bool" where
  "counted field_name item =
     (truthy (counted_value field_name item) \<and> state item = JStr ''CLOSED''
      \<and> truthy (closed_at item))"

subsection \<open>Pages of the endpoint\<close>

text \<open>The response envelope of the query, as section 6 of the spec gives it:
  \<open>{data: {organization: {projectsV2: {nodes: [...]}}}}\<close> with project nodes
  \<open>{title, items: {nodes: [...], pageInfo: {hasNextPage, endCursor}}}\<close>.\<close>

definition envelope :: "json list \<Rightarrow> json" where
  "envelope projects =
     JObj [(''data'', JObj [(''organization'',
       JObj [(''projectsV2'', JObj [(''nodes'', JArr projects)])])])]"

definition project_node :: "string \<Rightarrow> json list \<Rightarrow> bool \<Rightarrow> json \<Rightarrow> json" where
  "project_node t ns has_next end_cursor =
     JObj [(''title'', JStr t),
           (''items'', JObj [(''nodes'', JArr ns),
              (''pageInfo'', JObj [(''hasNextPage'', JBool has_next),
                                   (''endCursor'', end_cursor)])])]"

text \<open>A project node with a title other than \<open>t\<close>.\<close>

definition other_project :: "string \<Rightarrow> json \<Rightarrow> bool" where
  "other_project t p =
     (case p of
        JObj kvs \<Rightarrow> (case map_of kvs ''title'' of None \<Rightarrow> False | Some v \<Rightarrow> v \<noteq> JStr t)
      | _ \<Rightarrow> False)"

text \<open>One page of the project titled \<open>t\<close>: the project nodes before it (with other
  titles), its item nodes, its end cursor and the project nodes after it.\<close>

record page =
  pg_before :: "json list"
  pg_items :: "json list"
  pg_end_cursor :: json
  pg_after :: "json list"

definition page_body :: "string \<Rightarrow> page \<Rightarrow> bool \<Rightarrow> json" where
  "page_body t pg has_next =
     envelope (pg_before pg
               @ [project_node t (pg_items pg) has_next (pg_end_cursor pg)]
               @ pg_after pg)"

text \<open>\<open>serves org t endpoint cursor pgs\<close>: asked with \<open>cursor\<close> first and then with the
  end cursor of each page in turn, the handlers answer with the pages \<open>pgs\<close>, of which
  the last, and only the last, reports no next page. Handlers after the last page are
  not constrained.\<close>

fun serves ::
  "string \<Rightarrow> string \<Rightarrow> (string \<Rightarrow> json \<Rightarrow> response) list \<Rightarrow> json \<Rightarrow> page list \<Rightarrow> bool" where
  "serves org t (post # later) cursor (pg # pgs) =
     (post org cursor = Body (page_body t pg (pgs \<noteq> []))
      \<and> list_all (other_project t) (pg_before pg)
      \<and> (if pgs = [] then True else serves org t later (pg_end_cursor pg) pgs))"
| "serves org t _ cursor _ = False"

subsection \<open>Sample data\<close>

text \<open>Four raw items as the query returns them, and their normalized records. The
  first item has a field-value entry without metadata (\<open>{}\<close>, as the query gives for a
  value that is neither text nor number).\<close>

definition sample_raw_items :: "json list" where
  "sample_raw_items =
     [JObj [(''id'', JStr ''I1''),
            (''fieldValues'', JObj [(''nodes'',
               JArr [JObj [],
                     JObj [(''number'', JInt 3),
                           (''field'', JObj [(''name'', JStr ''Estimate'')])]])]),
            (''content'', JObj [(''title'', JStr ''Fix login''), (''state'', JStr ''CLOSED''),
                               (''closedAt'', JStr ''2025-01-13T10:30:00Z'')])],
      JObj [(''id'', JStr ''I2''),
            (''fieldValues'', JObj [(''nodes'',
               JArr [JObj [(''number'', JInt 0),
                           (''field'', JObj [(''name'', JStr ''Estimate'')])]])]),
            (''content'', JObj [(''title'', JStr ''Add chart''), (''state'', JStr ''CLOSED''),
                               (''closedAt'', JStr ''2025-01-13T18:00:00Z'')])],
      JObj [(''id'', JStr ''I3''),
            (''fieldValues'', JObj [(''nodes'',
               JArr [JObj [(''number'', JInt 2),
                           (''field'', JObj [(''name'', JStr ''Estimate'')])]])]),
            (''content'', JObj [(''title'', JStr ''Write docs''), (''state'', JStr ''OPEN''),
                               (''closedAt'', JNull)])],
      JObj [(''id'', JStr ''I4''),
            (''fieldValues'', JObj [(''nodes'', JArr [])]),
            (''content'', JObj [(''title'', JStr ''Ship''), (''state'', JStr ''CLOSED''),
                               (''closedAt'', JStr ''2025-01-15T09:00:00Z'')])]]"

definition sample_items :: "norm_item list" where
  "sample_items =
     [\<lparr>title = JStr ''Fix login'', state = JStr ''CLOSED'',
       closed_at = JStr ''2025-01-13T10:30:00Z'',
       fields_map = [KStr ''Estimate'' \<mapsto> JInt 3]\<rparr>,
      \<lparr>title = JStr ''Add chart'', state = JStr ''CLOSED'',
       closed_at = JStr ''2025-01-13T18:00:00Z'',
       fields_map = [KStr ''Estimate'' \<mapsto> JInt 0]\<rparr>,
      \<lparr>title = JStr ''Write docs'', state = JStr ''OPEN'', closed_at = JNull,
       fields_map = [KStr ''Estimate'' \<mapsto> JInt 2]\<rparr>,
      \<lparr>title = JStr ''Ship'', state = JStr ''CLOSED'',
       closed_at = JStr ''2025-01-15T09:00:00Z'',
       fields_map = Map.empty\<rparr>]"

text \<open>The chart of the end-to-end scenario of the spec and a two-page endpoint that
  serves the four sample items; the project \<open>palette\<close> differs from \<open>Palette\<close> in case
  only.\<close>

definition sample_bucket :: "date \<rightharpoonup> rat" where
  "sample_bucket = [ymd_ordinal 2025 1 13 \<mapsto> 2, ymd_ordinal 2025 1 15 \<mapsto> 1]"

definition sample_start :: datetime where
  "sample_start = datetime_of 2025 1 12 0 0 0"

definition sample_end :: datetime where
  "sample_end = datetime_of 2025 1 14 0 0 0"

definition sample_pages :: "page list" where
  "sample_pages =
     [\<lparr>pg_before = [project_node ''palette'' [JObj [(''id'', JStr ''X1'')]] False JNull],
       pg_items = take 2 sample_raw_items,
       pg_end_cursor = JStr ''Mg'',
       pg_after = []\<rparr>,
      \<lparr>pg_before = [project_node ''palette'' [] False JNull],
       pg_items = drop 2 sample_raw_items,
       pg_end_cursor = JStr ''NA'',
       pg_after = [project_node ''Roadmap'' [] True (JStr ''MQ'')]\<rparr>]"

definition sample_endpoint :: "(string \<Rightarrow> json \<Rightarrow> response) list" where
  "sample_endpoint =
     [\<lambda>org cursor. if org = ''acme'' \<and> cursor = JNull
                   then Body (page_body ''Palette'' (sample_pages ! 0) True) else BadStatus,
      \<lambda>org cursor. if org = ''acme'' \<and> cursor = JStr ''Mg''
                   then Body (page_body ''Palette'' (sample_pages ! 1) False) else BadStatus,
      \<lambda>org cursor. NoConnection]"

section \<open>Properties of \<open>process_items\<close>\<close>

subsection \<open>The inner loop\<close>

lemma field_value_of_obj:
  "field_value_of (JObj kvs) = Inr (entry_value kvs)"
  by (simp add: field_value_of_def entry_value_def or_none_def split: option.splits)

lemma entry_key_SomeD:
  assumes "entry_key e = Some k"
  shows "\<exists>kvs md. e = JObj kvs \<and> map_of kvs ''field'' = Some (JObj md) \<and> md \<noteq> []
           \<and> hash_key (case map_of md ''name'' of None \<Rightarrow> JStr ''Unknown'' | Some nm \<Rightarrow> nm) = Inr k"
proof (cases e)
  case (JObj kvs)
  show ?thesis
  proof (cases "map_of kvs ''field''")
    case None
    with assms JObj show ?thesis by (simp add: entry_key_def)
  next
    case (Some x)
    show ?thesis
    proof (cases x)
      case (JObj md)
      with assms \<open>e = JObj kvs\<close> Some show ?thesis
        by (simp add: entry_key_def split: if_splits sum.splits)
    qed (use assms \<open>e = JObj kvs\<close> Some in \<open>simp_all add: entry_key_def\<close>)
  qed
qed (use assms in \<open>simp_all add: entry_key_def\<close>)

text \<open>An entry with a key stores its value under the key; a readable entry without a key
  is skipped.\<close>

lemma extract_fields_keyed:
  assumes "entry_key (JObj kvs) = Some k"
  shows "extract_fields (JObj kvs # rest) fs = extract_fields rest (fs(k \<mapsto> entry_value kvs))"
proof -
  from entry_key_SomeD[OF assms] obtain md where
    md: "map_of kvs ''field'' = Some (JObj md)" "md \<noteq> []"
      "hash_key (case map_of md ''name'' of None \<Rightarrow> JStr ''Unknown'' | Some nm \<Rightarrow> nm) = Inr k"
    by auto
  show ?thesis using md by (simp add: field_value_of_obj)
qed

lemma extract_fields_unkeyed:
  assumes "entry_ok e" "entry_key e = None"
  shows "extract_fields (e # rest) fs = extract_fields rest fs"
proof -
  from assms(1) obtain kvs where kvs: "e = JObj kvs"
    by (cases e) (simp_all add: entry_ok_def)
  show ?thesis
  proof (cases "map_of kvs ''field''")
    case None
    then show ?thesis using kvs by simp
  next
    case (Some md)
    with assms kvs have "\<not> truthy md" by (simp add: entry_ok_def split: if_splits)
    then show ?thesis using kvs Some by simp
  qed
qed

lemma extract_fields_ok:
  "list_all entry_ok es \<Longrightarrow> \<exists>fs'. extract_fields es fs = Inr fs'"
proof (induction es arbitrary: fs)
  case Nil
  then show ?case by simp
next
  case (Cons e es)
  from Cons.prems have e: "entry_ok e" and es: "list_all entry_ok es" by simp_all
  show ?case
  proof (cases "entry_key e")
    case None
    then show ?thesis using extract_fields_unkeyed[OF e None] Cons.IH[OF es] by simp
  next
    case (Some k)
    from entry_key_SomeD[OF Some] obtain kvs where "e = JObj kvs" by blast
    then show ?thesis using extract_fields_keyed[of kvs k es fs] Some Cons.IH[OF es] by simp
  qed
qed

text \<open>Whatever the entry, a step that does not raise either leaves the \<open>dict\<close> as it is
  or writes under the key of the entry.\<close>

lemma extract_fields_step:
  assumes "extract_fields (e # rest) fs = Inr fs'"
  shows "extract_fields rest fs = Inr fs'
         \<or> (\<exists>k v. entry_key e = Some k \<and> extract_fields rest (fs(k \<mapsto> v)) = Inr fs')"
proof (cases e)
  case (JObj kvs)
  show ?thesis
  proof (cases "map_of kvs ''field''")
    case None
    then show ?thesis using assms JObj by simp
  next
    case (Some md)
    show ?thesis
    proof (cases "truthy md")
      case False
      then show ?thesis using assms JObj Some by simp
    next
      case True
      show ?thesis
      proof (cases md)
        case (JObj m)
        with True have ne: "m \<noteq> []" by simp
        obtain nm where nm: "nm = (case map_of m ''name'' of None \<Rightarrow> JStr ''Unknown'' | Some x \<Rightarrow> x)"
          by simp
        show ?thesis
        proof (cases "hash_key nm")
          case (Inl err)
          then show ?thesis using assms \<open>e = JObj kvs\<close> Some JObj ne nm
            by (simp add: field_value_of_obj)
        next
          case (Inr k)
          then have "entry_key e = Some k" using \<open>e = JObj kvs\<close> Some JObj ne nm
            by (simp add: entry_key_def)
          moreover have "extract_fields rest (fs(k \<mapsto> entry_value kvs)) = Inr fs'"
            using assms \<open>e = JObj kvs\<close> Some JObj ne nm Inr by (simp add: field_value_of_obj)
          ultimately show ?thesis by blast
        qed
      qed (use assms \<open>e = JObj kvs\<close> Some True in simp_all)
    qed
  qed
qed (use assms in simp_all)

lemma extract_fields_other:
  "extract_fields post fs = Inr fs' \<Longrightarrow> \<forall>e\<in>set post. entry_key e \<noteq> Some k \<Longrightarrow> fs' k = fs k"
proof (induction post arbitrary: fs)
  case Nil
  then show ?case by simp
next
  case (Cons e post)
  from extract_fields_step[OF Cons.prems(1)] show ?case
  proof
    assume "extract_fields post fs = Inr fs'"
    then show ?thesis using Cons.IH Cons.prems(2) by simp
  next
    assume "\<exists>k' v. entry_key e = Some k' \<and> extract_fields post (fs(k' \<mapsto> v)) = Inr fs'"
    then obtain k' v where
      kv: "entry_key e = Some k'" "extract_fields post (fs(k' \<mapsto> v)) = Inr fs'"
      by blast
    from kv(1) Cons.prems(2) have "k' \<noteq> k" by auto
    moreover from Cons.IH[OF kv(2)] Cons.prems(2) have "fs' k = (fs(k' \<mapsto> v)) k" by simp
    ultimately show ?thesis by simp
  qed
qed

lemma extract_fields_Cons:
  "extract_fields (e # rest) fs =
     (case extract_fields [e] fs of Inl err \<Rightarrow> Inl err | Inr fs1 \<Rightarrow> extract_fields rest fs1)"
  by (simp split: sum.splits)

lemma extract_fields_app:
  "extract_fields (pre @ rest) fs =
     (case extract_fields pre fs of Inl err \<Rightarrow> Inl err | Inr fs1 \<Rightarrow> extract_fields rest fs1)"
proof (induction pre arbitrary: fs)
  case Nil
  then show ?case by simp
next
  case (Cons e pre)
  have "extract_fields ((e # pre) @ rest) fs =
     (case extract_fields [e] fs of
        Inl err \<Rightarrow> Inl err
      | Inr fs1 \<Rightarrow> extract_fields (pre @ rest) fs1)"
    using extract_fields_Cons[of e "pre @ rest" fs] by simp
  also have "\<dots> =
     (case extract_fields [e] fs of
        Inl err \<Rightarrow> Inl err
      | Inr fs1 \<Rightarrow>
          (case extract_fields pre fs1 of
             Inl err \<Rightarrow> Inl err
           | Inr fs2 \<Rightarrow> extract_fields rest fs2))"
    by (simp add: Cons.IH del: extract_fields.simps split: sum.splits)
  also have "\<dots> =
     (case extract_fields (e # pre) fs of
        Inl err \<Rightarrow> Inl err
      | Inr fs1 \<Rightarrow> extract_fields rest fs1)"
    using extract_fields_Cons[of e pre fs]
    by (simp del: extract_fields.simps split: sum.splits)
  finally show ?case .
qed

subsection \<open>The outer loop\<close>

lemma process_loop_acc:
  "process_loop items acc = Inr out \<longleftrightarrow>
     (\<exists>rs. map process_item items = map Inr rs \<and> out = acc @ rs)"
proof (induction items arbitrary: acc out)
  case Nil
  then show ?case by auto
next
  case (Cons a items)
  show ?case
  proof (cases "process_item a")
    case (Inl e)
    then show ?thesis by auto
  next
    case (Inr r)
    then show ?thesis using Cons[of "acc @ [r]" out] by auto
  qed
qed

lemma process_items_map:
  "process_items items m = Inr out \<longleftrightarrow> map process_item items = map Inr out"
  by (simp add: process_items_def process_loop_acc)

lemma item_ok_entries:
  assumes "item_ok item"
  shows "\<exists>kvs fv es c. item = JObj kvs
     \<and> py_get item ''fieldValues'' (JObj []) = Inr (JObj fv)
     \<and> py_get (JObj fv) ''nodes'' (JArr []) = Inr (JArr es)
     \<and> list_all entry_ok es
     \<and> py_get item ''content'' (JObj []) = Inr (JObj c)"
proof -
  from assms obtain kvs where kvs: "item = JObj kvs"
    by (cases item) (simp_all add: item_ok_def)
  from assms kvs have fvok: "(case map_of kvs ''fieldValues'' of
             None \<Rightarrow> True
           | Some (JObj fv) \<Rightarrow>
               (case map_of fv ''nodes'' of
                  None \<Rightarrow> True
                | Some (JArr es) \<Rightarrow> list_all entry_ok es
                | Some _ \<Rightarrow> False)
           | Some _ \<Rightarrow> False)"
    and cok: "(case map_of kvs ''content'' of
                None \<Rightarrow> True
              | Some (JObj c) \<Rightarrow> True
              | Some _ \<Rightarrow> False)"
    by (simp_all add: item_ok_def)
  have "\<exists>fv es. py_get item ''fieldValues'' (JObj []) = Inr (JObj fv)
     \<and> py_get (JObj fv) ''nodes'' (JArr []) = Inr (JArr es) \<and> list_all entry_ok es"
  proof (cases "map_of kvs ''fieldValues''")
    case None
    then show ?thesis using kvs by simp
  next
    case (Some x)
    with fvok obtain fv where fv: "x = JObj fv" by (cases x) simp_all
    show ?thesis
    proof (cases "map_of fv ''nodes''")
      case None
      then show ?thesis using kvs Some fv by simp
    next
      case (Some y)
      with fvok \<open>map_of kvs ''fieldValues'' = Some x\<close> fv
      obtain es where "y = JArr es" "list_all entry_ok es"
        by (cases y) simp_all
      then show ?thesis using kvs Some fv \<open>map_of kvs ''fieldValues'' = Some x\<close> by simp
    qed
  qed
  moreover have "\<exists>c. py_get item ''content'' (JObj []) = Inr (JObj c)"
  proof (cases "map_of kvs ''content''")
    case None
    then show ?thesis using kvs by simp
  next
    case (Some x)
    with cok obtain c where "x = JObj c" by (cases x) simp_all
    then show ?thesis using kvs Some by simp
  qed
  ultimately show ?thesis using kvs by blast
qed

lemma process_item_ok:
  assumes "item_ok item"
  shows "\<exists>r. process_item item = Inr r"
proof -
  from item_ok_entries[OF assms] obtain fv es c where
    a: "py_get item ''fieldValues'' (JObj []) = Inr (JObj fv)"
       "py_get (JObj fv) ''nodes'' (JArr []) = Inr (JArr es)"
       "list_all entry_ok es"
       "py_get item ''content'' (JObj []) = Inr (JObj c)"
    by blast
  from extract_fields_ok[OF a(3)] obtain fs where
    fs: "extract_fields es Map.empty = Inr fs" by blast
  show ?thesis
    unfolding process_item_def using a(1,2,4) fs by simp
qed

lemma process_item_fields:
  "process_item (JObj ikvs) = Inr r \<Longrightarrow> map_of ikvs ''fieldValues'' = Some (JObj fv) \<Longrightarrow>
   map_of fv ''nodes'' = Some (JArr es) \<Longrightarrow> extract_fields es Map.empty = Inr (fields_map r)"
  by (auto simp: process_item_def split: sum.splits)

lemma sample_processed:
  "process_items sample_raw_items m = Inr sample_items"
  by (simp add: sample_raw_items_def sample_items_def process_items_def process_item_def
      field_value_of_def)

lemma sample_items_ok:
  "list_all item_ok sample_raw_items"
  by (simp add: sample_raw_items_def item_ok_def entry_ok_def entry_key_def)

subsection \<open>Length and order\<close>

text \<open>
  C4, as amended. Whenever \<open>process_items\<close> returns, its result has the length of the
  input and its \<open>i\<close>-th record is the normalized record of the \<open>i\<close>-th item: nothing is
  dropped or reordered. It returns whenever every raw item is a \<open>dict\<close> whose
  \<open>fieldValues\<close>, when present, is a \<open>dict\<close> whose \<open>nodes\<close>, when present, is a list of
  \<open>dict\<close> entries each of which lacks field metadata or carries a \<open>dict\<close> with a hashable
  name, and whose \<open>content\<close>, when present, is a \<open>dict\<close> (\<open>item_ok\<close>); entries without
  metadata never make it fail.
\<close>

theorem process_items_length_order:
  "(process_items items m = Inr out \<longrightarrow>
      length out = length items
      \<and> (\<forall>i<length items. process_item (items ! i) = Inr (out ! i)))
   \<and> (list_all item_ok items \<longrightarrow> (\<exists>res. process_items items m = Inr res))"
proof (intro conjI impI)
  assume a: "process_items items m = Inr out"
  then have eq: "map process_item items = map Inr out" by (simp add: process_items_map)
  from eq show len: "length out = length items" by (metis length_map)
  show "\<forall>i<length items. process_item (items ! i) = Inr (out ! i)"
  proof (intro allI impI)
    fix i assume i: "i < length items"
    then have "map process_item items ! i = map Inr out ! i" using eq by simp
    then show "process_item (items ! i) = Inr (out ! i)" using i len by simp
  qed
next
  assume ok: "list_all item_ok items"
  then have "\<exists>rs. map process_item items = map Inr rs"
  proof (induction items)
    case Nil
    then show ?case by simp
  next
    case (Cons a items)
    then obtain rs where rs: "map process_item items = map Inr rs" by auto
    from Cons.prems process_item_ok[of a] obtain r where "process_item a = Inr r" by auto
    with rs have "map process_item (a # items) = map Inr (r # rs)" by simp
    then show ?case by blast
  qed
  then show "\<exists>res. process_items items m = Inr res" by (simp add: process_items_map)
qed

text \<open>The sample: four items in, their four records out, in order.\<close>

theorem process_items_length_order_witness:
  "process_items sample_raw_items ''Sprint 4'' = Inr sample_items
   \<and> list_all item_ok sample_raw_items
   \<and> length sample_items = length sample_raw_items
   \<and> process_item (sample_raw_items ! 3) = Inr (sample_items ! 3)"
proof -
  have run: "process_items sample_raw_items ''Sprint 4'' = Inr sample_items"
    by (rule sample_processed)
  have three: "3 < length sample_raw_items" by (simp add: sample_raw_items_def)
  from process_items_length_order[of sample_raw_items "''Sprint 4''" sample_items] run
  have "length sample_items = length sample_raw_items"
    and "\<forall>i<length sample_raw_items. process_item (sample_raw_items ! i) = Inr (sample_items ! i)"
    by blast+
  with run sample_items_ok three show ?thesis by blast
qed

text \<open>C4 as stated fails: an item whose \<open>content\<close> is \<open>null\<close> (the endpoint gives that for
  a redacted item) makes \<open>process_items\<close> raise, so no sequence is returned at all.\<close>

theorem process_items_null_content_counterexample:
  "process_items [JObj [(''content'', JNull)]] ''Sprint 4'' = Inl AttributeError"
  by (simp add: process_items_def process_item_def)

subsection \<open>The value of a field\<close>

text \<open>
  C5, as amended. In the record of an item, the value under the name of a field-value
  entry that carries field metadata (and is the last entry of the item with that name)
  is the \<open>text\<close> of the entry when that is present and truthy, and otherwise its \<open>number\<close>
  (\<open>None\<close> when the entry has none); so text wins over number only when it is not empty.
\<close>

theorem process_items_field_value:
  assumes "process_items items m = Inr out" and "i < length items"
    and "items ! i = JObj ikvs" and "map_of ikvs ''fieldValues'' = Some (JObj fv)"
    and "map_of fv ''nodes'' = Some (JArr (pre @ JObj kvs # post))"
    and "entry_key (JObj kvs) = Some k" and "\<forall>e\<in>set post. entry_key e \<noteq> Some k"
  shows "fields_map (out ! i) k =
           Some (case map_of kvs ''text'' of
                   None \<Rightarrow> or_none (map_of kvs ''number'')
                 | Some t \<Rightarrow> if truthy t then t else or_none (map_of kvs ''number''))"
proof -
  from assms(1) have "map process_item items = map Inr out" by (simp add: process_items_map)
  then have len: "length out = length items"
    and "map process_item items ! i = map Inr out ! i"
    by (metis length_map, simp)
  with assms(2) have pi: "process_item (JObj ikvs) = Inr (out ! i)" using assms(3) by simp
  define fs where "fs = fields_map (out ! i)"
  from process_item_fields[OF pi assms(4,5)]
  have fs: "extract_fields (pre @ JObj kvs # post) Map.empty = Inr fs" by (simp add: fs_def)
  from fs obtain fs1 where fs1: "extract_fields (JObj kvs # post) fs1 = Inr fs"
    by (simp add: extract_fields_app split: sum.splits)
  then have "extract_fields post (fs1(k \<mapsto> entry_value kvs)) = Inr fs"
    by (simp only: extract_fields_keyed[OF assms(6)])
  from extract_fields_other[OF this assms(7)] have "fs k = Some (entry_value kvs)" by simp
  then show ?thesis by (simp add: fs_def entry_value_def)
qed

text \<open>The first sample item: its second entry is stored under \<open>Estimate\<close> as 3.\<close>

theorem process_items_field_value_witness:
  "process_items sample_raw_items ''Sprint 4'' = Inr sample_items
   \<and> entry_key (JObj [(''number'', JInt 3), (''field'', JObj [(''name'', JStr ''Estimate'')])])
       = Some (KStr ''Estimate'')
   \<and> fields_map (sample_items ! 0) (KStr ''Estimate'') = Some (JInt 3)"
proof -
  let ?kvs = "[(''number'', JInt 3), (''field'', JObj [(''name'', JStr ''Estimate'')])]"
  let ?fv = "[(''nodes'', JArr ([JObj []] @ JObj ?kvs # []))]"
  let ?ikvs = "[(''id'', JStr ''I1''), (''fieldValues'', JObj ?fv),
                (''content'', JObj [(''title'', JStr ''Fix login''), (''state'', JStr ''CLOSED''),
                                   (''closedAt'', JStr ''2025-01-13T10:30:00Z'')])]"
  have run: "process_items sample_raw_items ''Sprint 4'' = Inr sample_items"
    by (rule sample_processed)
  have i: "0 < length sample_raw_items" by (simp add: sample_raw_items_def)
  have item: "sample_raw_items ! 0 = JObj ?ikvs" by (simp add: sample_raw_items_def)
  have fv: "map_of ?ikvs ''fieldValues'' = Some (JObj ?fv)" by simp
  have nodes: "map_of ?fv ''nodes'' = Some (JArr ([JObj []] @ JObj ?kvs # []))" by simp
  have key: "entry_key (JObj ?kvs) = Some (KStr ''Estimate'')" by (simp add: entry_key_def)
  have later: "\<forall>e\<in>set []. entry_key e \<noteq> Some (KStr ''Estimate'')" by simp
  from process_items_field_value[OF run i item fv nodes key later]
  have "fields_map (sample_items ! 0) (KStr ''Estimate'') = Some (JInt 3)"
    by (simp add: or_none_def)
  with run key show ?thesis by blast
qed

text \<open>C5 as stated fails: an entry with an empty \<open>text\<close> and the \<open>number\<close> 5 is stored as
  5, although its text is present.\<close>

theorem process_items_empty_text_counterexample:
  "process_items
     [JObj [(''fieldValues'', JObj [(''nodes'',
        JArr [JObj [(''text'', JStr []), (''number'', JInt 5),
                    (''field'', JObj [(''name'', JStr ''Estimate'')])]])])]] ''Sprint 4''
   = Inr [\<lparr>title = JStr ''No Title'', state = JStr ''Unknown'', closed_at = JNull,
           fields_map = [KStr ''Estimate'' \<mapsto> JInt 5]\<rparr>]"
  by (simp add: process_items_def process_item_def field_value_of_def)

subsection \<open>The unused parameter\<close>

text \<open>
  C10. For every input sequence of raw items and any two values of the
  \<open>milestone_name\<close> argument, \<open>process_items\<close> returns identical output: the parameter
  has no effect on the result.
\<close>

theorem process_items_milestone_irrelevant:
  "process_items items m1 = process_items items m2"
  by (simp add: process_items_def)

section \<open>Properties of \<open>calculate_by_date\<close>\<close>

subsection \<open>One step of the loop\<close>

lemma contribution_counted:
  assumes "counted fn it" and "py_strptime P (closed_at it) = Inr dt"
    and "py_float F (counted_value fn it) = Inr x"
  shows "spec_contribution P F fn it = Some (ordinal dt, x)"
proof (cases fn)
  case None
  with assms(3) have "x = 1" by (simp add: counted_value_def)
  with None assms(1,2) show ?thesis by (simp add: spec_contribution_def counted_def)
next
  case (Some f)
  show ?thesis
  proof (cases "fields_map it (KStr f)")
    case None
    with Some assms(1) show ?thesis by (simp add: counted_def counted_value_def)
  next
    case (Some v)
    with \<open>fn = Some f\<close> assms show ?thesis
      by (simp add: spec_contribution_def counted_def counted_value_def)
  qed
qed

lemma contribution_not_counted:
  assumes "\<not> counted fn it"
  shows "spec_contribution P F fn it = None"
proof (cases "state it = JStr ''CLOSED'' \<and> truthy (closed_at it)")
  case False
  then show ?thesis by (auto simp add: spec_contribution_def)
next
  case True
  with assms have nt: "\<not> truthy (counted_value fn it)" by (simp add: counted_def)
  show ?thesis
  proof (cases fn)
    case None
    with nt show ?thesis by (simp add: counted_value_def)
  next
    case (Some f)
    with nt show ?thesis
      by (simp add: spec_contribution_def counted_value_def split: option.splits sum.splits)
  qed
qed

lemma calc_loop_counted:
  assumes "counted fn it"
  shows "calc_loop P F fn (it # rest) cpd =
     (case py_strptime P (closed_at it) of
        Inl e \<Rightarrow> Inl e
      | Inr dt \<Rightarrow>
          (case py_float F (counted_value fn it) of
             Inl e \<Rightarrow> Inl e
           | Inr x \<Rightarrow> calc_loop P F fn rest (cpd(ordinal dt \<mapsto> get0 cpd (ordinal dt) + x))))"
  using assms by (simp add: counted_def Let_def split: sum.splits)

lemma calc_loop_not_counted:
  assumes "\<not> counted fn it"
  shows "calc_loop P F fn (it # rest) cpd = calc_loop P F fn rest cpd"
  using assms by (auto simp add: counted_def Let_def)


lemma calc_loop_total:
  "\<forall>it\<in>set items. counted fn it \<longrightarrow>
      (\<exists>dt x. py_strptime P (closed_at it) = Inr dt \<and> py_float F (counted_value fn it) = Inr x)
   \<Longrightarrow> \<exists>b. calc_loop P F fn items cpd = Inr b"
proof (induction items arbitrary: cpd)
  case Nil
  then show ?case by simp
next
  case (Cons it rest)
  then have IH: "\<And>cpd. \<exists>b. calc_loop P F fn rest cpd = Inr b" by simp
  show ?case
  proof (cases "counted fn it")
    case True
    with Cons.prems obtain dt x where
      "py_strptime P (closed_at it) = Inr dt" "py_float F (counted_value fn it) = Inr x"
      by auto
    then show ?thesis using IH by (simp only: calc_loop_counted[OF True]) simp
  next
    case False
    then show ?thesis using IH by (simp only: calc_loop_not_counted[OF False])
  qed
qed

lemma calc_loop_no_closed:
  "\<forall>it\<in>set items. state it \<noteq> JStr ''CLOSED'' \<Longrightarrow> calc_loop P F fn items cpd = Inr cpd"
  by (induction items arbitrary: cpd) (simp_all add: Let_def)

subsection \<open>The bucket\<close>

lemma added_to_Cons_None:
  "spec_contribution P F fn it = None \<Longrightarrow> added_to P F fn (it # rest) d = added_to P F fn rest d"
  by (simp add: added_to_def List.map_filter_simps)

lemma added_to_Cons_Some:
  "spec_contribution P F fn it = Some (d', x) \<Longrightarrow>
   added_to P F fn (it # rest) d = (if d' = d then x # added_to P F fn rest d else added_to P F fn rest d)"
  by (simp add: added_to_def List.map_filter_simps)

lemma calc_loop_bucket:
  "calc_loop P F fn items cpd = Inr b \<Longrightarrow>
   b d = (if added_to P F fn items d = [] then cpd d
          else Some (get0 cpd d + sum_list (added_to P F fn items d)))"
proof (induction items arbitrary: cpd)
  case Nil
  then show ?case by (simp add: added_to_def List.map_filter_simps)
next
  case (Cons it rest)
  show ?case
  proof (cases "counted fn it")
    case False
    from Cons.prems have "calc_loop P F fn rest cpd = Inr b"
      by (simp only: calc_loop_not_counted[OF False])
    from Cons.IH[OF this] show ?thesis
      by (simp only: added_to_Cons_None[OF contribution_not_counted[OF False]])
  next
    case True
    from Cons.prems obtain dt x where
      dt: "py_strptime P (closed_at it) = Inr dt"
      and x: "py_float F (counted_value fn it) = Inr x"
      and rest: "calc_loop P F fn rest (cpd(ordinal dt \<mapsto> get0 cpd (ordinal dt) + x)) = Inr b"
      by (simp only: calc_loop_counted[OF True]) (auto split: sum.splits)
    have c: "spec_contribution P F fn it = Some (ordinal dt, x)"
      by (rule contribution_counted[OF True dt x])
    show ?thesis
      using Cons.IH[OF rest]
      by (simp add: added_to_Cons_Some[OF c] get0_def add.assoc)
  qed
qed

lemma spec_bucket_added:
  "spec_bucket P F fn items d =
     (if added_to P F fn items d = [] then None else Some (sum_list (added_to P F fn items d)))"
  by (simp add: spec_bucket_def added_to_def Let_def)

subsection \<open>The sample items\<close>

lemma ymd_2025_01_dd: "ymd_ordinal 2025 1 d = 739251 + d"
  by (simp add: ymd_ordinal_def days_before_year_def days_before_month_def)

lemma iso_1: "iso_strptime ''2025-01-13T10:30:00Z'' = Some \<lparr>ordinal = 739264, micros = 37800000000\<rparr>"
  by (simp add: iso_strptime_def digits_value_def datetime_of_def ymd_2025_01_dd days_in_month_def)

lemma iso_2: "iso_strptime ''2025-01-13T18:00:00Z'' = Some \<lparr>ordinal = 739264, micros = 64800000000\<rparr>"
  by (simp add: iso_strptime_def digits_value_def datetime_of_def ymd_2025_01_dd days_in_month_def)

lemma iso_3: "iso_strptime ''2025-01-15T09:00:00Z'' = Some \<lparr>ordinal = 739266, micros = 32400000000\<rparr>"
  by (simp add: iso_strptime_def digits_value_def datetime_of_def ymd_2025_01_dd days_in_month_def)


lemma sample_count:
  "calculate_by_date iso_strptime digits_float sample_items None = Inr sample_bucket"
  by (simp add: calculate_by_date_def sample_items_def sample_bucket_def counted_value_def
      iso_1 iso_2 iso_3 get0_def ymd_2025_01_dd)

lemma sample_estimate:
  "calculate_by_date iso_strptime digits_float sample_items (Some ''Estimate'')
   = Inr [ymd_ordinal 2025 1 13 \<mapsto> 3]"
  by (simp add: calculate_by_date_def sample_items_def counted_value_def
      iso_1 iso_2 iso_3 get0_def ymd_2025_01_dd)

lemma sample_convertible:
  "\<forall>it\<in>set sample_items. counted fn it \<longrightarrow>
      (\<exists>dt x. py_strptime iso_strptime (closed_at it) = Inr dt
             \<and> py_float digits_float (counted_value fn it) = Inr x)"
  by (cases fn) (simp_all add: sample_items_def counted_def counted_value_def iso_1 iso_2 iso_3)

subsection \<open>What the items contribute\<close>

text \<open>
  C1. Whenever \<open>calculate_by_date\<close> returns a bucket, the bucket is the one the spec
  describes (\<open>spec_bucket\<close>): only items whose state is exactly \<open>CLOSED\<close> and whose
  closure timestamp is present contribute, under the date of the timestamp; each
  contributes 1 when no field name is given and the numeric value of the named field
  when one is given; items without the field or with a falsy (zero) value contribute
  nothing. It returns a bucket whenever the timestamp of every item that passes the test
  of the loop parses and its value converts to a number.
\<close>

theorem calculate_by_date_bucket:
  "(calculate_by_date strptime float_of_str items field_name = Inr b
      \<longrightarrow> b = spec_bucket strptime float_of_str field_name items)
   \<and> ((\<forall>it\<in>set items. counted field_name it \<longrightarrow>
          (\<exists>dt x. py_strptime strptime (closed_at it) = Inr dt
                 \<and> py_float float_of_str (counted_value field_name it) = Inr x))
      \<longrightarrow> (\<exists>res. calculate_by_date strptime float_of_str items field_name = Inr res))"
proof (intro conjI impI)
  assume a: "calculate_by_date strptime float_of_str items field_name = Inr b"
  show "b = spec_bucket strptime float_of_str field_name items"
  proof
    fix d
    from a have "calc_loop strptime float_of_str field_name items Map.empty = Inr b"
      by (simp add: calculate_by_date_def)
    from calc_loop_bucket[OF this, of d]
    show "b d = spec_bucket strptime float_of_str field_name items d"
      by (simp add: spec_bucket_added get0_def)
  qed
next
  assume "\<forall>it\<in>set items. counted field_name it \<longrightarrow>
          (\<exists>dt x. py_strptime strptime (closed_at it) = Inr dt
                 \<and> py_float float_of_str (counted_value field_name it) = Inr x)"
  from calc_loop_total[OF this]
  show "\<exists>res. calculate_by_date strptime float_of_str items field_name = Inr res"
    by (simp add: calculate_by_date_def)
qed

text \<open>The sample items: closed estimates 3 and 0 on 13 January give the bucket
  \<open>{13 January: 3}\<close>, and the count gives \<open>{13 January: 2, 15 January: 1}\<close>.\<close>

theorem calculate_by_date_bucket_witness:
  "calculate_by_date iso_strptime digits_float sample_items (Some ''Estimate'')
     = Inr [ymd_ordinal 2025 1 13 \<mapsto> 3]
   \<and> spec_bucket iso_strptime digits_float (Some ''Estimate'') sample_items
     = [ymd_ordinal 2025 1 13 \<mapsto> 3]
   \<and> calculate_by_date iso_strptime digits_float sample_items None = Inr sample_bucket
   \<and> spec_bucket iso_strptime digits_float None sample_items = sample_bucket"
proof -
  note e = calculate_by_date_bucket[where strptime = iso_strptime and float_of_str = digits_float
      and items = sample_items and field_name = "Some ''Estimate''"
      and b = "[ymd_ordinal 2025 1 13 \<mapsto> 3]"]
  note c = calculate_by_date_bucket[where strptime = iso_strptime and float_of_str = digits_float
      and items = sample_items and field_name = None and b = sample_bucket]
  from e sample_estimate
  have "[ymd_ordinal 2025 1 13 \<mapsto> 3] = spec_bucket iso_strptime digits_float (Some ''Estimate'') sample_items"
    by blast
  moreover from c sample_count
  have "sample_bucket = spec_bucket iso_strptime digits_float None sample_items" by blast
  moreover from c sample_convertible[of None]
  have "\<exists>res. calculate_by_date iso_strptime digits_float sample_items None = Inr res" by blast
  ultimately show ?thesis using sample_estimate sample_count by simp
qed

subsection \<open>Timestamps that do not parse\<close>




section \<open>Properties of \<open>generate_burndown_chart\<close>\<close>

lemma actual_loop_length:
  "length (actual_loop cpd ds r acc) = length acc + length ds"
  by (induction ds arbitrary: r acc) (simp_all add: Let_def)

lemma actual_loop_prefix:
  "i < length acc \<Longrightarrow> actual_loop cpd ds r acc ! i = acc ! i"
  by (induction ds arbitrary: r acc) (simp_all add: Let_def nth_append)

lemma actual_loop_nth:
  "i < length ds \<Longrightarrow>
   actual_loop cpd ds r acc ! (length acc + i) = r - (\<Sum>j\<le>i. get0 cpd (ordinal (ds ! j)))"
proof (induction ds arbitrary: r acc i)
  case Nil
  then show ?case by simp
next
  case (Cons d ds)
  show ?case
  proof (cases i)
    case 0
    then show ?thesis
      using actual_loop_prefix[of "length acc" "acc @ [r - get0 cpd (ordinal d)]" cpd ds "r - get0 cpd (ordinal d)"]
      by (simp add: Let_def)
  next
    case (Suc k)
    with Cons.prems have k: "k < length ds" by simp
    have "actual_loop cpd (d # ds) r acc ! (length acc + i)
          = actual_loop cpd ds (r - get0 cpd (ordinal d)) (acc @ [r - get0 cpd (ordinal d)])
              ! (length (acc @ [r - get0 cpd (ordinal d)]) + k)"
      using Suc by (simp add: Let_def)
    also have "\<dots> = r - get0 cpd (ordinal d) - (\<Sum>j\<le>k. get0 cpd (ordinal (ds ! j)))"
      by (rule Cons.IH[OF k])
    also have "\<dots> = r - (\<Sum>j\<le>Suc k. get0 cpd (ordinal ((d # ds) ! j)))"
    proof -
      have "(\<Sum>j\<le>Suc k. get0 cpd (ordinal ((d # ds) ! j)))
            = get0 cpd (ordinal ((d # ds) ! 0)) + (\<Sum>j\<le>k. get0 cpd (ordinal ((d # ds) ! Suc j)))"
        by (rule sum.atMost_Suc_shift)
      then show ?thesis by simp
    qed
    finally show ?thesis using Suc by simp
  qed
qed

lemma actual_loop_empty:
  "actual_loop Map.empty ds r acc = acc @ replicate (length ds) r"
  by (induction ds arbitrary: acc) (simp_all add: Let_def get0_def replicate_app_Cons_same)

lemma date_range_length:
  "length (date_range s e) = nat (timedelta_days e s + 1)"
  by (simp add: date_range_def)

lemma date_range_nth:
  "i < nat (timedelta_days e s + 1) \<Longrightarrow> date_range s e ! i = s\<lparr>ordinal := ordinal s + int i\<rparr>"
  by (simp add: date_range_def)

lemma timedelta_days_aligned:
  assumes "0 \<le> micros s" "micros s \<le> micros e" "micros e < 86400000000"
  shows "timedelta_days e s = ordinal e - ordinal s"
proof -
  have "(ordinal e * 86400000000 + micros e) - (ordinal s * 86400000000 + micros s)
        = (ordinal e - ordinal s) * 86400000000 + (micros e - micros s)"
    by (simp add: algebra_simps)
  moreover have "0 \<le> micros e - micros s" "micros e - micros s < 86400000000"
    using assms by simp_all
  ultimately show ?thesis
    unfolding timedelta_days_def by (simp add: div_pos_pos_trivial)
qed

lemma chart_actual_nth:
  assumes "i < nat (timedelta_days e s + 1)"
  shows "chart_actual (generate_burndown_chart cpd s e T) ! i
         = T - (\<Sum>j\<le>i. get0 cpd (ordinal s + int j))"
proof -
  have len: "i < length (date_range s e)" using assms by (simp add: date_range_length)
  have "\<And>j. j \<le> i \<Longrightarrow> ordinal (date_range s e ! j) = ordinal s + int j"
    using assms by (simp add: date_range_nth)
  then have "(\<Sum>j\<le>i. get0 cpd (ordinal (date_range s e ! j))) = (\<Sum>j\<le>i. get0 cpd (ordinal s + int j))"
    by (intro sum.cong) simp_all
  then show ?thesis
    using actual_loop_nth[OF len, of cpd T "[]"]
    by (simp add: generate_burndown_chart_def Let_def)
qed

lemma chart_actual_length:
  "length (chart_actual (generate_burndown_chart cpd s e T)) = nat (timedelta_days e s + 1)"
  by (simp add: generate_burndown_chart_def Let_def actual_loop_length date_range_length)


lemma ex_chart: "chart_actual (generate_burndown_chart [ymd_ordinal 2025 1 13 \<mapsto> 2, ymd_ordinal 2025 1 15 \<mapsto> 1]
          (datetime_of 2025 1 12 0 0 0) (datetime_of 2025 1 14 0 0 0) 5) = [5, 3, 3]"
  by (simp add: generate_burndown_chart_def date_range_def timedelta_days_def datetime_of_def
      ymd_2025_01_dd get0_def Let_def upt_conv_Cons)

lemma sample_range: "nat (timedelta_days sample_end sample_start + 1) = 3"
  by (simp add: sample_start_def sample_end_def timedelta_days_def datetime_of_def ymd_2025_01_dd)

lemma sample_start_ordinal: "ordinal sample_start = 739263"
  by (simp add: sample_start_def datetime_of_def ymd_2025_01_dd)

subsection \<open>The actual trajectory\<close>

text \<open>
  C2. The chart has one entry for each enumerated day, the days ascending from the
  start date (all days through the end date when the end is not earlier in its day than
  the start); the entry of each day is the entry of the day before (the total, for the
  first day) minus the bucketed value of the day, 0 when the bucket has none, so it is
  the total minus the bucketed values so far, unclamped. Bucketed dates outside the
  range do not affect it, and the scenario of the spec gives \<open>[5, 3, 3]\<close>.
\<close>

theorem actual_trajectory:
  assumes "c = generate_burndown_chart cpd s e T" and "N = nat (timedelta_days e s + 1)"
  shows "length (chart_dates c) = N \<and> length (chart_actual c) = N
    \<and> (\<forall>i<N. chart_dates c ! i = s\<lparr>ordinal := ordinal s + int i\<rparr>
            \<and> chart_actual c ! i
                = (if i = 0 then T else chart_actual c ! (i - 1)) - get0 cpd (ordinal s + int i)
            \<and> chart_actual c ! i = T - (\<Sum>j\<le>i. get0 cpd (ordinal s + int j)))
    \<and> (0 \<le> micros s \<and> micros s \<le> micros e \<and> micros e < 86400000000
         \<longrightarrow> N = nat (ordinal e - ordinal s + 1))
    \<and> ((\<forall>i<N. cpd' (ordinal s + int i) = cpd (ordinal s + int i))
         \<longrightarrow> chart_actual (generate_burndown_chart cpd' s e T) = chart_actual c)
    \<and> chart_actual (generate_burndown_chart
           [ymd_ordinal 2025 1 13 \<mapsto> 2, ymd_ordinal 2025 1 15 \<mapsto> 1]
           (datetime_of 2025 1 12 0 0 0) (datetime_of 2025 1 14 0 0 0) 5) = [5, 3, 3]"
proof (intro conjI allI impI)
  show "length (chart_dates c) = N"
    using assms by (simp add: generate_burndown_chart_def Let_def date_range_length)
  show "length (chart_actual c) = N"
    using assms by (simp add: chart_actual_length)
next
  fix i assume i: "i < N"
  show "chart_dates c ! i = s\<lparr>ordinal := ordinal s + int i\<rparr>"
    using assms i by (simp add: generate_burndown_chart_def Let_def date_range_nth)
  have closed: "\<And>k. k < N \<Longrightarrow> chart_actual c ! k = T - (\<Sum>j\<le>k. get0 cpd (ordinal s + int j))"
    using assms by (simp add: chart_actual_nth)
  show "chart_actual c ! i = T - (\<Sum>j\<le>i. get0 cpd (ordinal s + int j))"
    using closed[OF i] .
  show "chart_actual c ! i
          = (if i = 0 then T else chart_actual c ! (i - 1)) - get0 cpd (ordinal s + int i)"
  proof (cases i)
    case 0
    then show ?thesis using closed[OF i] by simp
  next
    case (Suc k)
    with i have "k < N" by simp
    from closed[OF this] closed[OF i] Suc show ?thesis by simp
  qed
next
  assume "0 \<le> micros s \<and> micros s \<le> micros e \<and> micros e < 86400000000"
  then show "N = nat (ordinal e - ordinal s + 1)"
    using assms(2) by (simp add: timedelta_days_aligned)
next
  assume same: "\<forall>i<N. cpd' (ordinal s + int i) = cpd (ordinal s + int i)"
  show "chart_actual (generate_burndown_chart cpd' s e T) = chart_actual c"
  proof (rule nth_equalityI)
    show "length (chart_actual (generate_burndown_chart cpd' s e T)) = length (chart_actual c)"
      using assms by (simp add: chart_actual_length)
  next
    fix i assume "i < length (chart_actual (generate_burndown_chart cpd' s e T))"
    then have i: "i < nat (timedelta_days e s + 1)" by (simp add: chart_actual_length)
    have "(\<Sum>j\<le>i. get0 cpd' (ordinal s + int j)) = (\<Sum>j\<le>i. get0 cpd (ordinal s + int j))"
    proof (rule sum.cong)
      fix j assume "j \<in> {..i}"
      then have "j < N" using i assms(2) by simp
      with same show "get0 cpd' (ordinal s + int j) = get0 cpd (ordinal s + int j)"
        by (simp add: get0_def)
    qed simp
    then show "chart_actual (generate_burndown_chart cpd' s e T) ! i = chart_actual c ! i"
      using i assms(1) by (simp add: chart_actual_nth)
  qed
next
  show "chart_actual (generate_burndown_chart
           [ymd_ordinal 2025 1 13 \<mapsto> 2, ymd_ordinal 2025 1 15 \<mapsto> 1]
           (datetime_of 2025 1 12 0 0 0) (datetime_of 2025 1 14 0 0 0) 5) = [5, 3, 3]"
    by (rule ex_chart)
qed

theorem actual_trajectory_witness:
  "nat (timedelta_days sample_end sample_start + 1) = 3
   \<and> 0 \<le> micros sample_start \<and> micros sample_start \<le> micros sample_end
   \<and> micros sample_end < 86400000000
   \<and> nat (ordinal sample_end - ordinal sample_start + 1) = 3
   \<and> length (chart_actual (generate_burndown_chart sample_bucket sample_start sample_end 5)) = 3
   \<and> chart_actual (generate_burndown_chart sample_bucket sample_start sample_end 5) ! 1
       = 5 - (get0 sample_bucket 739263 + get0 sample_bucket 739264)
   \<and> chart_actual (generate_burndown_chart [ymd_ordinal 2025 1 13 \<mapsto> 2]
                     sample_start sample_end 5)
       = chart_actual (generate_burndown_chart sample_bucket sample_start sample_end 5)"
proof -
  let ?c = "generate_burndown_chart sample_bucket sample_start sample_end 5"
  let ?b = "[ymd_ordinal 2025 1 13 \<mapsto> 2::rat]"
  have N: "3 = nat (timedelta_days sample_end sample_start + 1)" by (simp add: sample_range)
  note th = actual_trajectory[where c = ?c and cpd = sample_bucket and s = sample_start
      and e = sample_end and T = 5 and N = 3 and cpd' = ?b, OF refl N]
  have al: "0 \<le> micros sample_start \<and> micros sample_start \<le> micros sample_end
      \<and> micros sample_end < 86400000000"
    by (simp add: sample_start_def sample_end_def datetime_of_def)
  have same: "\<forall>i<3. ?b (ordinal sample_start + int i) = sample_bucket (ordinal sample_start + int i)"
    by (auto simp add: sample_bucket_def sample_start_ordinal ymd_2025_01_dd)
  from th have len: "length (chart_actual ?c) = 3" by blast
  from th have "\<forall>i<3. chart_actual ?c ! i = 5 - (\<Sum>j\<le>i. get0 sample_bucket (ordinal sample_start + int j))"
    by blast
  then have "chart_actual ?c ! 1 = 5 - (\<Sum>j\<le>1. get0 sample_bucket (ordinal sample_start + int j))"
    by simp
  then have one: "chart_actual ?c ! 1 = 5 - (get0 sample_bucket 739263 + get0 sample_bucket 739264)"
    by (simp add: sample_start_ordinal)
  from th al have days: "3 = nat (ordinal sample_end - ordinal sample_start + 1)" by blast
  from th same have indep: "chart_actual (generate_burndown_chart ?b sample_start sample_end 5)
       = chart_actual ?c" by blast
  show ?thesis using sample_range al days len one indep by simp
qed

subsection \<open>The ideal trajectory\<close>



subsection \<open>Monotonicity\<close>

text \<open>
  C9. When all values of the bucket are non-negative, the actual trajectory never
  increases; over the empty bucket it is the total at every enumerated date; and
  \<open>calculate_by_date\<close> returns the empty bucket on items none of which is closed.
\<close>

theorem actual_monotone_flat:
  assumes "c = generate_burndown_chart cpd s e T"
  shows "((\<forall>d v. cpd d = Some v \<longrightarrow> 0 \<le> v)
          \<longrightarrow> (\<forall>i j. i \<le> j \<and> j < length (chart_actual c)
                 \<longrightarrow> chart_actual c ! j \<le> chart_actual c ! i))
    \<and> chart_actual (generate_burndown_chart Map.empty s e T)
        = replicate (length (chart_dates c)) T
    \<and> ((\<forall>it\<in>set items. state it \<noteq> JStr ''CLOSED'')
         \<longrightarrow> calculate_by_date strptime float_of_str items field_name = Inr Map.empty)"
proof (intro conjI allI impI)
  fix i j
  assume nonneg: "\<forall>d v. cpd d = Some v \<longrightarrow> 0 \<le> v"
    and ij: "i \<le> j \<and> j < length (chart_actual c)"
  then have j: "j < nat (timedelta_days e s + 1)" and i: "i < nat (timedelta_days e s + 1)"
    using assms by (simp_all add: chart_actual_length)
  have g: "\<And>d. 0 \<le> get0 cpd d"
    using nonneg by (simp add: get0_def split: option.splits)
  have "(\<Sum>k\<le>i. get0 cpd (ordinal s + int k)) \<le> (\<Sum>k\<le>j. get0 cpd (ordinal s + int k))"
    using ij g by (intro sum_mono2) auto
  then show "chart_actual c ! j \<le> chart_actual c ! i"
    using assms i j by (simp add: chart_actual_nth)
next
  show "chart_actual (generate_burndown_chart Map.empty s e T)
        = replicate (length (chart_dates c)) T"
    using assms by (simp add: generate_burndown_chart_def Let_def actual_loop_empty)
next
  assume "\<forall>it\<in>set items. state it \<noteq> JStr ''CLOSED''"
  then show "calculate_by_date strptime float_of_str items field_name = Inr Map.empty"
    by (simp add: calculate_by_date_def calc_loop_no_closed)
qed

theorem actual_monotone_flat_witness:
  "chart_actual (generate_burndown_chart sample_bucket sample_start sample_end 5) ! 2
     \<le> chart_actual (generate_burndown_chart sample_bucket sample_start sample_end 5) ! 0
   \<and> chart_actual (generate_burndown_chart Map.empty sample_start sample_end 5) = [5, 5, 5]
   \<and> calculate_by_date iso_strptime digits_float [sample_items ! 2] None = Inr Map.empty"
proof -
  let ?c = "generate_burndown_chart sample_bucket sample_start sample_end 5"
  note th = actual_monotone_flat[where c = ?c and cpd = sample_bucket and s = sample_start
      and e = sample_end and T = 5 and items = "[sample_items ! 2]"
      and strptime = iso_strptime and float_of_str = digits_float and field_name = None, OF refl]
  have nonneg: "\<forall>d v. sample_bucket d = Some v \<longrightarrow> 0 \<le> v"
    by (auto simp add: sample_bucket_def split: if_splits)
  have len: "length (chart_actual ?c) = 3" by (simp add: chart_actual_length sample_range)
  have dates: "length (chart_dates ?c) = 3"
    by (simp add: generate_burndown_chart_def Let_def date_range_length sample_range)
  have open_only: "\<forall>it\<in>set [sample_items ! 2]. state it \<noteq> JStr ''CLOSED''"
    by (simp add: sample_items_def)
  from th nonneg have "\<forall>i j. i \<le> j \<and> j < length (chart_actual ?c)
      \<longrightarrow> chart_actual ?c ! j \<le> chart_actual ?c ! i" by blast
  then have mono: "chart_actual ?c ! 2 \<le> chart_actual ?c ! 0" using len by simp
  from th dates have flat: "chart_actual (generate_burndown_chart Map.empty sample_start sample_end 5)
      = [5, 5, 5]" by (simp add: numeral_3_eq_3)
  from th open_only have empty:
    "calculate_by_date iso_strptime digits_float [sample_items ! 2] None = Inr Map.empty" by blast
  show ?thesis using mono flat empty by blast
qed

section \<open>Properties of \<open>fetch_project_items\<close>\<close>

lemma find_project_other:
  "list_all (other_project t) ps \<Longrightarrow> find_project t ps = Inr JNull"
proof (induction ps)
  case Nil
  then show ?case by simp
next
  case (Cons p ps)
  from Cons.prems have "other_project t p" by simp
  then obtain kvs v where "p = JObj kvs" "map_of kvs ''title'' = Some v" "v \<noteq> JStr t"
    by (cases p) (auto simp: other_project_def split: option.splits)
  then show ?case using Cons by simp
qed

lemma find_project_first:
  assumes "list_all (other_project t) before" and "map_of kvs ''title'' = Some (JStr t)"
  shows "find_project t (before @ JObj kvs # after) = Inr (JObj kvs)"
  using assms(1)
proof (induction before)
  case Nil
  then show ?case using assms(2) by simp
next
  case (Cons p ps)
  from Cons.prems have "other_project t p" by simp
  then obtain pk v where "p = JObj pk" "map_of pk ''title'' = Some v" "v \<noteq> JStr t"
    by (cases p) (auto simp: other_project_def split: option.splits)
  then show ?case using Cons by simp
qed

lemma page_step_errors:
  "''errors'' \<in> fst ` set resp \<Longrightarrow> page_step t (JObj resp) = Inl RuntimeError_query_failed"
  by (simp add: page_step_def)

lemma page_step_no_data:
  "''errors'' \<notin> fst ` set resp \<Longrightarrow> ''data'' \<notin> fst ` set resp \<Longrightarrow>
   page_step t (JObj resp) = Inl ValueError_data_key_missing"
  by (simp add: page_step_def)

lemma page_step_not_found:
  assumes "''errors'' \<notin> fst ` set resp" and "map_of resp ''data'' = Some (JObj d)"
    and "map_of d ''organization'' = Some (JObj og)"
    and "map_of og ''projectsV2'' = Some (JObj pv)"
    and "map_of pv ''nodes'' = Some (JArr ps)"
    and "list_all (other_project t) ps"
  shows "page_step t (JObj resp) = Inl ValueError_project_not_found"
proof -
  from assms(2) have "''data'' \<in> fst ` set resp" using map_of_eq_None_iff[of resp "''data''"] by auto
  moreover have "projects_of (JObj resp) = Inr (JArr ps)"
    using assms(2-5) by (simp add: projects_of_def)
  ultimately show ?thesis
    using assms(1) find_project_other[OF assms(6)] by (simp add: page_step_def)
qed

lemma page_step_body:
  assumes "list_all (other_project t) (pg_before pg)"
  shows "page_step t (page_body t pg has_next)
         = Inr (pg_items pg, if has_next then Some (pg_end_cursor pg) else None)"
proof -
  let ?proj = "[(''title'', JStr t),
           (''items'', JObj [(''nodes'', JArr (pg_items pg)),
              (''pageInfo'', JObj [(''hasNextPage'', JBool has_next),
                                   (''endCursor'', pg_end_cursor pg)])])]"
  have body: "page_body t pg has_next = envelope (pg_before pg @ JObj ?proj # pg_after pg)"
    by (simp add: page_body_def project_node_def)
  have found: "find_project t (pg_before pg @ JObj ?proj # pg_after pg) = Inr (JObj ?proj)"
    by (rule find_project_first[OF assms]) simp
  have projs: "projects_of (envelope ps) = Inr (JArr ps)" for ps
    by (simp add: projects_of_def envelope_def)
  have c1: "py_contains ''errors'' (envelope ps) = Inr False" for ps
    by (simp add: envelope_def)
  have c2: "py_contains ''data'' (envelope ps) = Inr True" for ps
    by (simp add: envelope_def)
  show ?thesis
    unfolding body page_step_def by (simp add: c1 c2 projs found)
qed

lemma fetch_loop_serves:
  "serves org t endpoint cursor pgs \<Longrightarrow>
   fetch_loop org t endpoint cursor acc = Inr (acc @ concat (map pg_items pgs))"
proof (induction pgs arbitrary: endpoint cursor acc)
  case Nil
  then show ?case by (cases endpoint) simp_all
next
  case (Cons pg pgs)
  then obtain post later where ep: "endpoint = post # later"
    by (cases endpoint) simp_all
  from Cons.prems ep have
    body: "post org cursor = Body (page_body t pg (pgs \<noteq> []))"
    and before: "list_all (other_project t) (pg_before pg)"
    and rest: "pgs \<noteq> [] \<Longrightarrow> serves org t later (pg_end_cursor pg) pgs"
    by simp_all
  show ?case
  proof (cases "pgs = []")
    case True
    then show ?thesis using ep body page_step_body[OF before, of False] by simp
  next
    case False
    from Cons.IH[OF rest[OF False], of "acc @ pg_items pg"]
    show ?thesis using ep body page_step_body[OF before, of True] False by simp
  qed
qed

lemma sample_serves: "serves ''acme'' ''Palette'' sample_endpoint JNull sample_pages"
  by (simp add: sample_endpoint_def sample_pages_def other_project_def project_node_def)

subsection \<open>Errors of one page\<close>

text \<open>
  C7. For the response to any request of the loop: when the body has a top-level
  \<open>errors\<close> key the function fails with the \<open>RuntimeError\<close> (whatever else the body holds);
  otherwise, when it has no \<open>data\<close> key, with the \<open>ValueError\<close> of the missing key;
  otherwise, when the node set holds no project with the requested title, with the
  \<open>ValueError\<close> of the project not found.
\<close>

theorem fetch_page_errors:
  assumes "post org cursor = Body (JObj resp)"
  shows "(''errors'' \<in> fst ` set resp \<longrightarrow>
            fetch_loop org t (post # later) cursor acc = Inl RuntimeError_query_failed)
    \<and> (''errors'' \<notin> fst ` set resp \<and> ''data'' \<notin> fst ` set resp \<longrightarrow>
            fetch_loop org t (post # later) cursor acc = Inl ValueError_data_key_missing)
    \<and> (''errors'' \<notin> fst ` set resp \<and> map_of resp ''data'' = Some (JObj d)
        \<and> map_of d ''organization'' = Some (JObj og)
        \<and> map_of og ''projectsV2'' = Some (JObj pv)
        \<and> map_of pv ''nodes'' = Some (JArr ps)
        \<and> list_all (other_project t) ps \<longrightarrow>
            fetch_loop org t (post # later) cursor acc = Inl ValueError_project_not_found)"
  using assms
  by (simp add: page_step_errors page_step_no_data page_step_not_found)

theorem fetch_page_errors_witness:
  "fetch_project_items
     [\<lambda>org cursor. Body (JObj [(''data'', JNull),
                               (''errors'', JArr [JObj [(''message'', JStr ''timeout'')]])])]
     ''acme'' ''Palette'' = Inl RuntimeError_query_failed
   \<and> fetch_project_items
     [\<lambda>org cursor. Body (JObj [(''message'', JStr ''Bad credentials'')])]
     ''acme'' ''Palette'' = Inl ValueError_data_key_missing
   \<and> fetch_project_items
     [\<lambda>org cursor. Body (envelope [project_node ''Roadmap'' [] False JNull])]
     ''acme'' ''Palette'' = Inl ValueError_project_not_found"
proof -
  let ?r1 = "[(''data'', JNull), (''errors'', JArr [JObj [(''message'', JStr ''timeout'')]])]"
  let ?r2 = "[(''message'', JStr ''Bad credentials'')]"
  let ?ps = "[project_node ''Roadmap'' [] False JNull]"
  let ?pv = "[(''nodes'', JArr ?ps)]"
  let ?og = "[(''projectsV2'', JObj ?pv)]"
  let ?d = "[(''organization'', JObj ?og)]"
  let ?r3 = "[(''data'', JObj ?d)]"
  have e3: "envelope ?ps = JObj ?r3" by (simp add: envelope_def)
  have a: "fetch_loop ''acme'' ''Palette'' [\<lambda>org cursor. Body (JObj ?r1)] JNull []
           = Inl RuntimeError_query_failed"
    using fetch_page_errors[where post = "\<lambda>org cursor. Body (JObj ?r1)" and resp = ?r1
        and org = "''acme''" and cursor = JNull and t = "''Palette''" and later = "[]" and acc = "[]",
        OF refl]
    by simp
  have b: "fetch_loop ''acme'' ''Palette'' [\<lambda>org cursor. Body (JObj ?r2)] JNull []
           = Inl ValueError_data_key_missing"
    using fetch_page_errors[where post = "\<lambda>org cursor. Body (JObj ?r2)" and resp = ?r2
        and org = "''acme''" and cursor = JNull and t = "''Palette''" and later = "[]" and acc = "[]",
        OF refl]
    by simp
  have c: "fetch_loop ''acme'' ''Palette'' [\<lambda>org cursor. Body (JObj ?r3)] JNull []
           = Inl ValueError_project_not_found"
    using fetch_page_errors[where post = "\<lambda>org cursor. Body (JObj ?r3)" and resp = ?r3
        and org = "''acme''" and cursor = JNull and t = "''Palette''" and later = "[]" and acc = "[]"
        and d = ?d and og = ?og and pv = ?pv and ps = ?ps,
        OF refl]
    by (simp add: other_project_def project_node_def)
  show ?thesis using a b c by (simp add: fetch_project_items_def e3)
qed

subsection \<open>Pagination\<close>

text \<open>
  C8. When the endpoint answers the requests with pages each of which holds a project
  with exactly the requested title, the first request carrying no cursor and each later
  one the end cursor of the page before, and the last page is the first that reports no
  next page, \<open>fetch_project_items\<close> returns the item nodes of that project from all the
  pages, in page order and in the order within each page, and asks for nothing more.
\<close>

theorem fetch_project_items_pages:
  assumes "serves org t endpoint JNull pgs"
  shows "fetch_project_items endpoint org t = Inr (concat (map pg_items pgs))"
  using fetch_loop_serves[OF assms, of "[]"] by (simp add: fetch_project_items_def)

theorem fetch_project_items_pages_witness:
  "serves ''acme'' ''Palette'' sample_endpoint JNull sample_pages
   \<and> fetch_project_items sample_endpoint ''acme'' ''Palette'' = Inr sample_raw_items"
proof -
  from fetch_project_items_pages[OF sample_serves]
  have "fetch_project_items sample_endpoint ''acme'' ''Palette''
        = Inr (concat (map pg_items sample_pages))" .
  also have "concat (map pg_items sample_pages) = sample_raw_items"
    by (simp add: sample_pages_def)
  finally show ?thesis using sample_serves by simp
qed

end
